theory Spec2Isabelle
  imports Main
begin

section \<open>Python string primitives used by \<open>main.py\<close>\<close>

text \<open>
  A Python \<open>str\<close> is modelled as a \<open>string\<close> whose characters are the code points
  0 to 255. On that range the whitespace of \<open>str.strip()\<close>, the regular expression class
  \<open>\s\<close> and the case folding of \<open>(?i)\<close> are exactly the ones below; text with
  code points above 255 is outside the model.
\<close>

definition newline :: char where
  "newline = CHR 0x0A"

text \<open>\<open>str.isspace\<close> on one character, which is also what \<open>\s\<close> matches.\<close>

definition isspace :: "char \<Rightarrow> bool" where
  "isspace c = (c \<in> set [CHR 0x09, CHR 0x0A, CHR 0x0B, CHR 0x0C, CHR 0x0D,
                          CHR 0x1C, CHR 0x1D, CHR 0x1E, CHR 0x1F, CHR 0x20,
                          CHR 0x85, CHR 0xA0])"

text \<open>Case folding of \<open>(?i)\<close>: the letters A to Z go to a to z.\<close>

definition lower :: "char \<Rightarrow> char" where
  "lower c = (let n = (of_char c :: nat) in if 65 \<le> n \<and> n \<le> 90 then char_of (n + 32) else c)"

text \<open>\<open>s.strip()\<close>\<close>

definition strip :: "string \<Rightarrow> string" where
  "strip s = rev (dropWhile isspace (rev (dropWhile isspace s)))"

text \<open>\<open>s.split("\n")\<close>: never empty, the empty string gives one empty line.\<close>

fun split_nl :: "string \<Rightarrow> string list" where
  "split_nl [] = [[]]"
| "split_nl (c # cs) =
     (if c = newline then [] # split_nl cs
      else (case split_nl cs of [] \<Rightarrow> [[c]] | l # ls \<Rightarrow> (c # l) # ls))"

text \<open>\<open>sep.join(xs)\<close>\<close>

fun join :: "string \<Rightarrow> string list \<Rightarrow> string" where
  "join sep [] = []"
| "join sep [x] = x"
| "join sep (x # y # ys) = x @ sep @ join sep (y # ys)"

text \<open>\<open>s.endswith(suffix)\<close>\<close>

definition endswith :: "string \<Rightarrow> string \<Rightarrow> bool" where
  "endswith s suf = (take (length suf) (rev s) = rev suf)"

section \<open>The two label patterns\<close>

text \<open>
  Both patterns have the shape \<open>(?i)^(a1|a2|...)\s*[:\-]\<close>. The matcher tries the
  alternatives from left to right, as the backtracking engine does, and returns what
  follows the delimiter.
\<close>

text \<open>A literal alternative at the start of the string, ignoring case.\<close>

fun match_literal :: "string \<Rightarrow> string \<Rightarrow> string option" where
  "match_literal [] s = Some s"
| "match_literal (p # ps) [] = None"
| "match_literal (p # ps) (c # cs) = (if lower c = lower p then match_literal ps cs else None)"

text \<open>
  \<open>\s*[:\-]\<close>: the delimiter is no whitespace, so the only way to match is to take all
  the whitespace first.
\<close>

definition match_delim :: "string \<Rightarrow> string option" where
  "match_delim s =
     (case dropWhile isspace s of
        [] \<Rightarrow> None
      | c # cs \<Rightarrow> if c = CHR '':'' \<or> c = CHR ''-'' then Some cs else None)"

fun match_label :: "string list \<Rightarrow> string \<Rightarrow> string option" where
  "match_label [] s = None"
| "match_label (a # as) s =
     (case Option.bind (match_literal a s) match_delim of
        Some r \<Rightarrow> Some r
      | None \<Rightarrow> match_label as s)"

definition interviewee_labels :: "string list" where
  "interviewee_labels = [''participant'', ''interviewee'', ''p'', ''resp'', ''r'']"

definition interviewer_labels :: "string list" where
  "interviewer_labels = [''interviewer'', ''int'', ''i'']"

text \<open>\<open>re.match(r"(?i)^(...)\s*[:\-]", line)\<close> as a truth value.\<close>

definition re_match :: "string list \<Rightarrow> string \<Rightarrow> bool" where
  "re_match labels line = (match_label labels line \<noteq> None)"

text \<open>
  \<open>re.sub(r"(?i)^(...)\s*[:\-]\s*", "", line)\<close>: the pattern is anchored, so at most the
  prefix is removed; the trailing \<open>\s*\<close> takes the whitespace after the delimiter.
\<close>

definition re_sub :: "string list \<Rightarrow> string \<Rightarrow> string" where
  "re_sub labels line =
     (case match_label labels line of
        None \<Rightarrow> line
      | Some r \<Rightarrow> dropWhile isspace r)"

section \<open>\<open>extract_interviewee_text\<close>\<close>

text \<open>The \<open>for\<close> loop over the lines, with \<open>cleaned_lines\<close> as the accumulator.\<close>

fun filter_lines :: "string list \<Rightarrow> string list \<Rightarrow> string list" where
  "filter_lines [] cleaned_lines = cleaned_lines"
| "filter_lines (l # ls) cleaned_lines =
     (let line = strip l in
      if line = [] then filter_lines ls cleaned_lines
      else if re_match interviewee_labels line
        then filter_lines ls (cleaned_lines @ [re_sub interviewee_labels line])
      else if re_match interviewer_labels line then filter_lines ls cleaned_lines
      else filter_lines ls cleaned_lines)"

definition extract_interviewee_text :: "string \<Rightarrow> string" where
  "extract_interviewee_text full_text = join [newline] (filter_lines (split_nl full_text) [])"

text \<open>
  What one input line contributes to the output: its remainder when the stripped line is
  not empty and carries an interviewee label, nothing otherwise.
\<close>

definition retained :: "string \<Rightarrow> string option" where
  "retained l =
     (let line = strip l in
      if line \<noteq> [] \<and> re_match interviewee_labels line
      then Some (re_sub interviewee_labels line) else None)"

text \<open>The letters a to z, of which every label is made.\<close>

definition islower :: "char \<Rightarrow> bool" where
  "islower c = (let n = (of_char c :: nat) in 97 \<le> n \<and> n \<le> 122)"

section \<open>Errors, tables and the outside world\<close>

text \<open>
  The exceptions the script can raise, as values. \<open>ValueError\<close> with the message
  \<open>Unsupported file format: ...\<close> is the unsupported-format error, \<open>KeyError\<close> the
  missing-column error and \<open>JSONDecodeError\<close> the response parse error; \<open>OSError\<close>
  and \<open>LibraryError\<close> stand for what the file system and the libraries raise.
\<close>

datatype py_error =
    ValueError string
  | KeyError string
  | JSONDecodeError
  | OSError string
  | LibraryError string

text \<open>
  A table cell and its \<open>str()\<close>, as an f-string formats it. Floating-point and date
  cells are not represented.
\<close>

datatype cell = CStr string | CInt int | CBool bool | CNull

fun str_nat :: "nat \<Rightarrow> string" where
  "str_nat n =
     (if n < 10 then [char_of (48 + n)]
      else str_nat (n div 10) @ [char_of (48 + n mod 10)])"

fun py_str :: "cell \<Rightarrow> string" where
  "py_str (CStr s) = s"
| "py_str (CInt i) = (if i < 0 then CHR ''-'' # str_nat (nat (- i)) else str_nat (nat i))"
| "py_str (CBool b) = (if b then ''True'' else ''False'')"
| "py_str CNull = ''None''"

text \<open>
  A polars \<open>DataFrame\<close>: the column names, which polars keeps distinct, and the rows,
  each as long as the list of columns.
\<close>

record dataframe =
  columns :: "string list"
  rows :: "cell list list"

text \<open>\<open>df.iter_rows(named=True)\<close>: every row as a dictionary from column name to cell.\<close>

definition iter_rows_named :: "dataframe \<Rightarrow> (string \<times> cell) list list" where
  "iter_rows_named df = map (\<lambda>r. zip (columns df) r) (rows df)"

text \<open>\<open>row[key]\<close>\<close>

definition row_get :: "(string \<times> cell) list \<Rightarrow> string \<Rightarrow> py_error + cell" where
  "row_get row key = (case map_of row key of None \<Rightarrow> Inl (KeyError key) | Some v \<Rightarrow> Inr v)"

text \<open>The value \<open>json.loads\<close> returns. Numbers with a fraction are not represented.\<close>

datatype json =
    JNull
  | JBool bool
  | JNum int
  | JStr string
  | JArr "json list"
  | JObj "(string \<times> json) list"

text \<open>
  Everything outside the script: the file system, the document and table readers, the
  JSON parser, the chat endpoint. One value of this record is the world of one run. The
  chat endpoint receives the codebook block and the transcript text, the two variable
  parts of the system and user messages; the fixed wording around them is not
  represented.
\<close>

record env =
  open_read :: "string \<Rightarrow> py_error + string"
  docx_paragraphs :: "string \<Rightarrow> py_error + string list"
  read_excel :: "string \<Rightarrow> py_error + dataframe"
  read_csv :: "string \<Rightarrow> py_error + dataframe"
  makedirs :: "string \<Rightarrow> py_error option"
  listdir :: "string \<Rightarrow> py_error + string list"
  chat :: "string \<Rightarrow> string \<Rightarrow> py_error + string"
  json_loads :: "string \<Rightarrow> py_error + json"
  DataFrame_other :: "json \<Rightarrow> py_error + dataframe"
  write_csv :: "string \<Rightarrow> dataframe \<Rightarrow> py_error option"

section \<open>\<open>load_transcript\<close>\<close>

definition load_transcript :: "env \<Rightarrow> string \<Rightarrow> py_error + string" where
  "load_transcript w path =
     (if endswith path ''.txt'' then open_read w path
      else if endswith path ''.docx'' then
        (case docx_paragraphs w path of
           Inl e \<Rightarrow> Inl e
         | Inr ps \<Rightarrow> Inr (join [newline] ps))
      else Inl (ValueError (''Unsupported file format: '' @ path)))"

section \<open>\<open>load_themes\<close>\<close>

text \<open>The loop over the rows, with \<open>lines\<close> as the accumulator.\<close>

fun theme_lines :: "(string \<times> cell) list list \<Rightarrow> string list \<Rightarrow> py_error + string list" where
  "theme_lines [] lines = Inr lines"
| "theme_lines (row # others) lines =
     (case row_get row ''code'' of
        Inl e \<Rightarrow> Inl e
      | Inr c \<Rightarrow>
          (case row_get row ''definition'' of
             Inl e \<Rightarrow> Inl e
           | Inr d \<Rightarrow> theme_lines others (lines @ [''- '' @ py_str c @ '': '' @ py_str d])))"

definition load_themes :: "env \<Rightarrow> string \<Rightarrow> py_error + string" where
  "load_themes w theme_path =
     (case (if endswith theme_path ''.xlsx'' then read_excel w theme_path
            else read_csv w theme_path) of
        Inl e \<Rightarrow> Inl e
      | Inr df \<Rightarrow>
          (case theme_lines (iter_rows_named df) [] of
             Inl e \<Rightarrow> Inl e
           | Inr lines \<Rightarrow> Inr (join [newline] lines)))"

section \<open>\<open>code_transcript_with_themes\<close>\<close>

definition code_transcript_with_themes :: "env \<Rightarrow> string \<Rightarrow> string \<Rightarrow> py_error + json" where
  "code_transcript_with_themes w text theme_prompt =
     (case chat w theme_prompt text of
        Inl e \<Rightarrow> Inl e
      | Inr content \<Rightarrow> json_loads w (strip content))"

section \<open>\<open>pl.DataFrame\<close> on the parsed response\<close>

text \<open>
  The constructor is library code. On an empty list it gives the empty frame; on a list
  of dictionaries that all have the keys of the first one, with text values, it gives one
  column per key, in the order of the first dictionary, and one row per dictionary. What
  it does on any other value is left to the world.
\<close>

fun row_cells :: "(string \<times> json) list \<Rightarrow> string list \<Rightarrow> cell list option" where
  "row_cells kvs [] = Some []"
| "row_cells kvs (k # ks) =
     (case map_of kvs k of
        Some (JStr s) \<Rightarrow>
          (case row_cells kvs ks of None \<Rightarrow> None | Some cs \<Rightarrow> Some (CStr s # cs))
      | _ \<Rightarrow> None)"

definition record_row :: "string list \<Rightarrow> json \<Rightarrow> cell list option" where
  "record_row cols item =
     (case item of
        JObj kvs \<Rightarrow>
          if distinct (map fst kvs) \<and> set (map fst kvs) = set cols then row_cells kvs cols
          else None
      | _ \<Rightarrow> None)"

fun record_rows :: "string list \<Rightarrow> json list \<Rightarrow> cell list list option" where
  "record_rows cols [] = Some []"
| "record_rows cols (i # is) =
     (case record_row cols i of
        None \<Rightarrow> None
      | Some r \<Rightarrow> (case record_rows cols is of None \<Rightarrow> None | Some rs \<Rightarrow> Some (r # rs)))"

definition pl_DataFrame :: "env \<Rightarrow> json \<Rightarrow> py_error + dataframe" where
  "pl_DataFrame w data =
     (case data of
        JArr [] \<Rightarrow> Inr \<lparr>columns = [], rows = []\<rparr>
      | JArr (JObj kvs # items) \<Rightarrow>
          (case record_rows (map fst kvs) (JObj kvs # items) of
             Some rs \<Rightarrow> Inr \<lparr>columns = map fst kvs, rows = rs\<rparr>
           | None \<Rightarrow> DataFrame_other w data)
      | _ \<Rightarrow> DataFrame_other w data)"

section \<open>Paths\<close>

text \<open>\<open>s.rfind(c)\<close>: the last index of the character, or -1.\<close>

definition rfind :: "string \<Rightarrow> char \<Rightarrow> int" where
  "rfind s c =
     (if c \<in> set s then int (length s) - 1 - int (length (takeWhile (\<lambda>x. x \<noteq> c) (rev s)))
      else - 1)"

text \<open>
  \<open>os.path.splitext\<close> on POSIX: the extension starts at the last dot of the last
  component, unless only dots come before it in that component.
\<close>

definition splitext :: "string \<Rightarrow> string \<times> string" where
  "splitext p =
     (let sepIndex = rfind p (CHR ''/'');
          dotIndex = rfind p (CHR ''.'')
      in if dotIndex > sepIndex \<and>
            list_ex (\<lambda>x. x \<noteq> CHR ''.'')
              (take (nat (dotIndex - (sepIndex + 1))) (drop (nat (sepIndex + 1)) p))
         then (take (nat dotIndex) p, drop (nat dotIndex) p)
         else (p, []))"

text \<open>\<open>os.path.join(a, b)\<close> on POSIX.\<close>

definition path_join :: "string \<Rightarrow> string \<Rightarrow> string" where
  "path_join a b =
     (if take 1 b = ''/'' then b
      else if a = [] \<or> endswith a ''/'' then a @ b
      else a @ ''/'' @ b)"

section \<open>\<open>process_folder\<close>\<close>

text \<open>
  What a run does, in order: the calls it makes and the files it writes. \<open>Wrote\<close> is
  recorded when \<open>write_csv\<close> has returned.
\<close>

datatype event =
    MakeDirs string
  | ReadThemes string
  | ListDir string
  | PrintProcessing string
  | LoadTranscript string
  | ModelCall string string
  | Wrote string dataframe
  | PrintSaved string

definition supported :: "string \<Rightarrow> bool" where
  "supported filename = (endswith filename ''.txt'' \<or> endswith filename ''.docx'')"

definition out_path :: "string \<Rightarrow> string \<Rightarrow> string" where
  "out_path output_dir filename =
     path_join output_dir (''coded_'' @ fst (splitext filename) @ ''.csv'')"

text \<open>
  The loop over the directory entries. No exception is caught: the first error ends the
  run, with the events so far.
\<close>

fun process_files ::
  "env \<Rightarrow> string \<Rightarrow> string \<Rightarrow> string \<Rightarrow> string list \<Rightarrow> event list \<Rightarrow> event list \<times> py_error option"
where
  "process_files w transcript_dir output_dir theme_prompt [] tr = (tr, None)"
| "process_files w transcript_dir output_dir theme_prompt (filename # others) tr =
     (if \<not> supported filename
      then process_files w transcript_dir output_dir theme_prompt others tr
      else
        let full_path = path_join transcript_dir filename;
            tr1 = tr @ [PrintProcessing filename, LoadTranscript full_path]
        in case load_transcript w full_path of
             Inl e \<Rightarrow> (tr1, Some e)
           | Inr raw \<Rightarrow>
               let participant_text = extract_interviewee_text raw;
                   tr2 = tr1 @ [ModelCall theme_prompt participant_text]
               in case code_transcript_with_themes w participant_text theme_prompt of
                    Inl e \<Rightarrow> (tr2, Some e)
                  | Inr coded_items \<Rightarrow>
                      (case pl_DataFrame w coded_items of
                         Inl e \<Rightarrow> (tr2, Some e)
                       | Inr df \<Rightarrow>
                           (case write_csv w (out_path output_dir filename) df of
                              Some e \<Rightarrow> (tr2, Some e)
                            | None \<Rightarrow>
                                process_files w transcript_dir output_dir theme_prompt others
                                  (tr2 @ [Wrote (out_path output_dir filename) df,
                                          PrintSaved (out_path output_dir filename)]))))"

definition process_folder ::
  "env \<Rightarrow> string \<Rightarrow> string \<Rightarrow> string \<Rightarrow> event list \<times> py_error option"
where
  "process_folder w transcript_dir theme_path output_dir =
     (case makedirs w output_dir of
        Some e \<Rightarrow> ([MakeDirs output_dir], Some e)
      | None \<Rightarrow>
          (case load_themes w theme_path of
             Inl e \<Rightarrow> ([MakeDirs output_dir, ReadThemes theme_path], Some e)
           | Inr theme_prompt \<Rightarrow>
               (case listdir w transcript_dir of
                  Inl e \<Rightarrow>
                    ([MakeDirs output_dir, ReadThemes theme_path, ListDir transcript_dir], Some e)
                | Inr names \<Rightarrow>
                    process_files w transcript_dir output_dir theme_prompt names
                      [MakeDirs output_dir, ReadThemes theme_path, ListDir transcript_dir])))"

text \<open>The paths of the files a run wrote, of the transcripts it loaded, and its model calls.\<close>

fun written_paths :: "event list \<Rightarrow> string list" where
  "written_paths [] = []"
| "written_paths (Wrote p df # es) = p # written_paths es"
| "written_paths (e # es) = written_paths es"

fun loaded_paths :: "event list \<Rightarrow> string list" where
  "loaded_paths [] = []"
| "loaded_paths (LoadTranscript p # es) = p # loaded_paths es"
| "loaded_paths (e # es) = loaded_paths es"

fun model_calls :: "event list \<Rightarrow> (string \<times> string) list" where
  "model_calls [] = []"
| "model_calls (ModelCall t x # es) = (t, x) # model_calls es"
| "model_calls (e # es) = model_calls es"

text \<open>
  The shape the response is expected to have: a dictionary with exactly the keys
  \<open>quote\<close>, \<open>theme\<close> and \<open>explanation\<close>, each with a text value.
\<close>

definition quote_fields :: "string list" where
  "quote_fields = [''quote'', ''theme'', ''explanation'']"

fun is_JStr :: "json \<Rightarrow> bool" where
  "is_JStr (JStr s) = True"
| "is_JStr j = False"

fun coded_quote :: "json \<Rightarrow> bool" where
  "coded_quote (JObj kvs) =
     (distinct (map fst kvs) \<and> set (map fst kvs) = set quote_fields \<and>
      list_all is_JStr (map snd kvs))"
| "coded_quote j = False"




section \<open>A small world to run the script in\<close>

definition codebook_AB :: dataframe where
  "codebook_AB =
     \<lparr>columns = [''code'', ''definition''],
      rows = [[CStr ''A'', CStr ''foo''], [CStr ''B'', CStr ''bar'']]\<rparr>"

text \<open>Two tables without the column \<open>definition\<close>: one with a row, one with none.\<close>

definition codebook_code_only :: dataframe where
  "codebook_code_only = \<lparr>columns = [''code''], rows = [[CStr ''A'']]\<rparr>"

definition codebook_no_rows :: dataframe where
  "codebook_no_rows = \<lparr>columns = [''code''], rows = []\<rparr>"

definition quoted :: "string \<Rightarrow> string" where
  "quoted s = CHR 0x22 # s @ [CHR 0x22]"

definition demo_response :: string where
  "demo_response =
     ''[{'' @ quoted ''quote'' @ '':'' @ quoted ''fine'' @ '','' @
     quoted ''theme'' @ '':'' @ quoted ''A'' @ '','' @
     quoted ''explanation'' @ '':'' @ quoted ''ok'' @ ''}]''"

definition demo_items :: "json list" where
  "demo_items =
     [JObj [(''quote'', JStr ''fine''), (''theme'', JStr ''A''), (''explanation'', JStr ''ok'')]]"

definition demo_env :: env where
  "demo_env =
     \<lparr>open_read = (\<lambda>p. if p = ''t/a.txt'' \<or> p = ''dup/a.txt''
                        then Inr (''Interviewer: Hi'' @ [newline] @ ''P: fine'')
                      else if p = ''bad/c.txt'' then Inr ''P: hello''
                      else Inl (OSError p)),
      docx_paragraphs = (\<lambda>p. if p = ''t/b.docx'' \<or> p = ''dup/a.docx''
                              then Inr [''Participant: fine''] else Inl (OSError p)),
      read_excel = (\<lambda>p. if p = ''themes.xlsx'' then Inr codebook_AB else Inl (OSError p)),
      read_csv = (\<lambda>p. if p = ''themes.tsv'' then Inr codebook_AB
                       else if p = ''code_only.csv'' then Inr codebook_code_only
                       else if p = ''no_rows.csv'' then Inr codebook_no_rows
                       else Inl (OSError p)),
      makedirs = (\<lambda>p. None),
      listdir = (\<lambda>p. if p = ''t'' then Inr [''a.txt'', ''b.docx'', ''notes.md'']
                      else if p = ''dup'' then Inr [''a.txt'', ''a.docx'', ''notes.md'']
                      else if p = ''bad'' then Inr [''c.txt'']
                      else Inl (OSError p)),
      chat = (\<lambda>theme text. if text = ''fine'' then Inr ('' '' @ demo_response @ [newline])
                            else Inr ''Here are the quotes you asked for.''),
      json_loads = (\<lambda>s. if s = demo_response then Inr (JArr demo_items)
                         else Inl JSONDecodeError),
      DataFrame_other = (\<lambda>j. Inl (LibraryError ''DataFrame'')),
      write_csv = (\<lambda>p df. None)\<rparr>"

text \<open>A line that is blank or carries one of the two kinds of speaker label.\<close>

definition labelled :: "string \<Rightarrow> bool" where
  "labelled l =
     (strip l = [] \<or> re_match interviewee_labels (strip l) \<or>
      re_match interviewer_labels (strip l))"

definition all_labelled :: "string \<Rightarrow> bool" where
  "all_labelled t = list_all labelled (split_nl t)"

section \<open>Lines, splitting and joining\<close>

lemma split_nl_not_Nil: "split_nl t \<noteq> []"
  by (induction t) (auto split: list.splits)

lemma join_Cons: "join sep (x # xs) = (if xs = [] then x else x @ sep @ join sep xs)"
  by (cases xs) simp_all

lemma join_split_nl: "join [newline] (split_nl t) = t"
proof (induction t)
  case Nil
  show ?case by simp
next
  case (Cons c cs)
  show ?case
  proof (cases "c = newline")
    case True
    with Cons show ?thesis by (simp add: join_Cons split_nl_not_Nil)
  next
    case False
    obtain l ls where sp: "split_nl cs = l # ls"
      using split_nl_not_Nil by (cases "split_nl cs") auto
    with Cons False show ?thesis by (auto simp: join_Cons split: if_splits)
  qed
qed

lemma split_nl_no_newline: "newline \<notin> set l \<Longrightarrow> split_nl l = [l]"
  by (induction l) auto

lemma split_nl_append:
  "newline \<notin> set l \<Longrightarrow> split_nl (l @ newline # t) = l # split_nl t"
  by (induction l) auto

lemma split_nl_join:
  "ls \<noteq> [] \<Longrightarrow> \<forall>l \<in> set ls. newline \<notin> set l \<Longrightarrow> split_nl (join [newline] ls) = ls"
proof (induction ls)
  case Nil
  then show ?case by simp
next
  case (Cons l ls)
  then show ?case
    by (cases "ls = []") (simp_all add: join_Cons split_nl_no_newline split_nl_append)
qed

lemma filter_lines_acc: "filter_lines ls acc = acc @ List.map_filter retained ls"
  by (induction ls arbitrary: acc) (simp_all add: retained_def Let_def List.map_filter_simps)

lemma retained_Nil: "retained [] = None"
  by (simp add: retained_def strip_def)

lemma filter_lines_split_join:
  assumes "\<forall>l \<in> set ls. newline \<notin> set l"
  shows "filter_lines (split_nl (join [newline] ls)) [] = filter_lines ls []"
proof (cases "ls = []")
  case True
  then show ?thesis by (simp add: strip_def)
next
  case False
  with assms show ?thesis by (simp add: split_nl_join)
qed

lemma length_strip_le: "length (strip s) \<le> length s"
  unfolding strip_def
  by (metis length_dropWhile_le length_rev order_trans)

lemma match_literal_length:
  "match_literal a s = Some r \<Longrightarrow> length s = length a + length r"
  by (induction a s rule: match_literal.induct) (auto split: if_splits)

lemma match_delim_length: "match_delim s = Some r \<Longrightarrow> length r < length s"
proof -
  assume a: "match_delim s = Some r"
  then obtain c where "dropWhile isspace s = c # r"
    by (auto simp: match_delim_def split: list.splits if_splits)
  then have "length (dropWhile isspace s) = Suc (length r)" by simp
  with length_dropWhile_le [of isspace s] show ?thesis by simp
qed

lemma match_label_length:
  "match_label as s = Some r \<Longrightarrow> [] \<notin> set as \<Longrightarrow> length r + 2 \<le> length s"
proof (induction as)
  case Nil
  then show ?case by simp
next
  case (Cons a as)
  show ?case
  proof (cases "Option.bind (match_literal a s) match_delim")
    case None
    with Cons show ?thesis by simp
  next
    case (Some r')
    with Cons.prems have r: "r' = r" by simp
    from Some obtain m where m: "match_literal a s = Some m" "match_delim m = Some r'"
      by (auto simp: bind_eq_Some_conv)
    from Cons.prems have "a \<noteq> []" by auto
    then have "1 \<le> length a" by (cases a) auto
    with match_literal_length [OF m(1)] match_delim_length [OF m(2)] r show ?thesis by simp
  qed
qed

lemma retained_length: "retained l = Some r \<Longrightarrow> length r + 2 \<le> length l"
proof -
  assume a: "retained l = Some r"
  then obtain m where m: "match_label interviewee_labels (strip l) = Some m"
    and r: "r = dropWhile isspace m"
    by (auto simp: retained_def Let_def re_match_def re_sub_def split: if_splits option.splits)
  have "[] \<notin> set interviewee_labels" by (simp add: interviewee_labels_def)
  with match_label_length [OF m] have "length m + 2 \<le> length (strip l)" by simp
  moreover have "length r \<le> length m" using r by (simp add: length_dropWhile_le)
  ultimately show ?thesis using length_strip_le [of l] by linarith
qed

lemma length_join_map_filter_le:
  "length (join [newline] (List.map_filter retained ls)) \<le> length (join [newline] ls)"
proof (induction ls)
  case Nil
  show ?case by (simp add: List.map_filter_simps)
next
  case (Cons l ls)
  show ?case
  proof (cases "retained l")
    case None
    with Cons show ?thesis by (simp add: List.map_filter_simps join_Cons)
  next
    case (Some r)
    from retained_length [OF Some] Cons show ?thesis
      using Some by (auto simp add: List.map_filter_simps join_Cons retained_Nil split: if_splits)
  qed
qed

lemma length_join_map_filter_less:
  "join [newline] ls \<noteq> [] \<Longrightarrow>
   length (join [newline] (List.map_filter retained ls)) < length (join [newline] ls)"
proof (cases ls)
  case Nil
  assume "join [newline] ls \<noteq> []"
  with Nil show ?thesis by simp
next
  case (Cons l ls')
  assume ne: "join [newline] ls \<noteq> []"
  show ?thesis
  proof (cases "retained l")
    case None
    with length_join_map_filter_le [of ls'] ne Cons show ?thesis
      by (auto simp add: List.map_filter_simps join_Cons split: if_splits)
  next
    case (Some r)
    from retained_length [OF Some] length_join_map_filter_le [of ls'] Cons show ?thesis
      using Some by (auto simp add: List.map_filter_simps join_Cons split: if_splits)
  qed
qed

lemma extract_shorter:
  "t \<noteq> [] \<Longrightarrow> length (extract_interviewee_text t) < length t"
  using length_join_map_filter_less [of "split_nl t"]
  by (simp add: extract_interviewee_text_def filter_lines_acc join_split_nl)

lemma extract_Nil: "extract_interviewee_text [] = []"
  by (simp add: extract_interviewee_text_def strip_def)

lemma extract_fixed_point: "extract_interviewee_text t = t \<longleftrightarrow> t = []"
proof
  assume a: "extract_interviewee_text t = t"
  show "t = []"
  proof (rule ccontr)
    assume "t \<noteq> []"
    from extract_shorter [OF this] a show False by simp
  qed
next
  assume "t = []"
  then show "extract_interviewee_text t = t" by (simp add: extract_Nil)
qed

lemma lower_delim: "isspace c \<or> c = CHR '':'' \<or> c = CHR ''-'' \<Longrightarrow> lower c = c"
  by (auto simp: isspace_def lower_def)

lemma lower_letter: "islower x \<Longrightarrow> lower x = x"
  by (simp add: lower_def islower_def Let_def)

lemma letter_not_delim:
  assumes "lower c = lower x" and "islower x"
  shows "\<not> isspace c \<and> c \<noteq> CHR '':'' \<and> c \<noteq> CHR ''-''"
proof (rule ccontr)
  assume "\<not> ?thesis"
  then have d: "isspace c \<or> c = CHR '':'' \<or> c = CHR ''-''" by blast
  from lower_delim [OF d] assms(1) lower_letter [OF assms(2)] have "c = x" by simp
  with d assms(2) show False by (auto simp: isspace_def islower_def)
qed

lemma match_literal_letters:
  "match_literal a s = Some m \<Longrightarrow> \<exists>pre. s = pre @ m \<and> map lower pre = map lower a"
proof (induction a s rule: match_literal.induct)
  case (1 s)
  then show ?case by simp
next
  case (2 p ps)
  then show ?case by simp
next
  case (3 p ps c cs)
  then have l: "lower c = lower p" and "match_literal ps cs = Some m"
    by (auto split: if_splits)
  with 3 obtain pre where "cs = pre @ m" "map lower pre = map lower ps" by auto
  with l have "c # cs = (c # pre) @ m \<and> map lower (c # pre) = map lower (p # ps)" by simp
  then show ?case by blast
qed

lemma match_label_alt:
  "match_label as s = Some r \<Longrightarrow>
   \<exists>a \<in> set as. \<exists>m. match_literal a s = Some m \<and> match_delim m = Some r"
proof (induction as)
  case Nil
  then show ?case by simp
next
  case (Cons a as)
  show ?case
  proof (cases "Option.bind (match_literal a s) match_delim")
    case None
    with Cons show ?thesis by auto
  next
    case (Some r')
    with Cons.prems have "r' = r" by simp
    with Some show ?thesis by (auto simp: bind_eq_Some_conv)
  qed
qed

lemma match_delim_hd:
  "match_delim m = Some r \<Longrightarrow>
   \<exists>d ds. m = d # ds \<and> (isspace d \<or> d = CHR '':'' \<or> d = CHR ''-'')"
  by (cases m) (auto simp: match_delim_def split: list.splits if_splits)

lemma map_lower_letters: "\<forall>c \<in> set a. islower c \<Longrightarrow> map lower a = a"
  by (rule map_idI) (simp add: lower_letter)

lemma delim_not_letter:
  assumes "isspace d \<or> d = CHR '':'' \<or> d = CHR ''-''"
  shows "\<not> islower (lower d)"
  using assms lower_delim [OF assms] by (auto simp: isspace_def islower_def)

lemma label_prefix_shorter:
  assumes pa: "s = pa @ d # ds" and pb: "s = pb @ m'"
    and d: "isspace d \<or> d = CHR '':'' \<or> d = CHR ''-''"
    and b: "\<forall>c \<in> set (map lower pb). islower c"
  shows "length pb \<le> length pa"
proof (rule ccontr)
  assume "\<not> length pb \<le> length pa"
  then have lt: "length pa < length pb" by simp
  from pa pb have "pa @ d # ds = pb @ m'" by simp
  with lt obtain us where "pb = pa @ us" "us \<noteq> []" "d # ds = us @ m'"
    by (auto simp: append_eq_append_conv2)
  then have "d \<in> set pb" by (cases us) auto
  then have "lower d \<in> set (map lower pb)" by simp
  with b delim_not_letter [OF d] show False by blast
qed

lemma label_unique:
  assumes a: "match_literal a s = Some m" "match_delim m = Some r"
    and b: "match_literal b s = Some m'" "match_delim m' = Some r'"
    and la: "\<forall>c \<in> set a. islower c"
    and lb: "\<forall>c \<in> set b. islower c"
  shows "a = b"
proof -
  from match_literal_letters [OF a(1)] obtain pa where pa: "s = pa @ m" "map lower pa = map lower a"
    by blast
  from match_literal_letters [OF b(1)] obtain pb where pb: "s = pb @ m'" "map lower pb = map lower b"
    by blast
  from match_delim_hd [OF a(2)] obtain d ds where d: "m = d # ds"
    "isspace d \<or> d = CHR '':'' \<or> d = CHR ''-''" by blast
  from match_delim_hd [OF b(2)] obtain e es where e: "m' = e # es"
    "isspace e \<or> e = CHR '':'' \<or> e = CHR ''-''" by blast
  have ma: "map lower pa = a" using pa(2) map_lower_letters [OF la] by simp
  have mb: "map lower pb = b" using pb(2) map_lower_letters [OF lb] by simp
  have "length pb \<le> length pa"
    using label_prefix_shorter [of s pa d ds pb m'] pa(1) pb(1) d mb lb by simp
  moreover have "length pa \<le> length pb"
    using label_prefix_shorter [of s pb e es pa m] pa(1) pb(1) e ma la by simp
  ultimately have "length pa = length pb" by simp
  with pa(1) pb(1) have "pa = pb" by simp
  with ma mb show ?thesis by simp
qed

lemma interviewee_letters:
  "a \<in> set interviewee_labels \<Longrightarrow> \<forall>c \<in> set a. islower c"
  by (auto simp: interviewee_labels_def islower_def)

lemma interviewer_letters:
  "a \<in> set interviewer_labels \<Longrightarrow> \<forall>c \<in> set a. islower c"
  by (auto simp: interviewer_labels_def islower_def)

lemma labels_disjoint:
  assumes "re_match interviewee_labels s" and "re_match interviewer_labels s"
  shows False
proof -
  from assms(1) obtain r where "match_label interviewee_labels s = Some r"
    by (auto simp: re_match_def)
  from match_label_alt [OF this] obtain a m where a: "a \<in> set interviewee_labels"
    "match_literal a s = Some m" "match_delim m = Some r" by blast
  from assms(2) obtain r' where "match_label interviewer_labels s = Some r'"
    by (auto simp: re_match_def)
  from match_label_alt [OF this] obtain b m' where b: "b \<in> set interviewer_labels"
    "match_literal b s = Some m'" "match_delim m' = Some r'" by blast
  from label_unique [OF a(2,3) b(2,3) interviewee_letters [OF a(1)] interviewer_letters [OF b(1)]]
  have "a = b" .
  with a(1) b(1) show False by (auto simp: interviewee_labels_def interviewer_labels_def)
qed

lemma match_literal_append:
  "match_literal a s = Some m \<Longrightarrow> match_literal a (s @ suf) = Some (m @ suf)"
  by (induction a s rule: match_literal.induct) (auto split: if_splits)

lemma match_delim_append:
  "match_delim m = Some r \<Longrightarrow> match_delim (m @ suf) = Some (r @ suf)"
proof -
  assume a: "match_delim m = Some r"
  then obtain c where c: "dropWhile isspace m = c # r" "c = CHR '':'' \<or> c = CHR ''-''"
    by (auto simp: match_delim_def split: list.splits if_splits)
  then have ns: "\<not> isspace c" by (auto simp: isspace_def)
  from c(1) have "c \<in> set (dropWhile isspace m)" by simp
  then have "c \<in> set m" by (rule set_dropWhileD)
  with ns have "dropWhile isspace (m @ suf) = dropWhile isspace m @ suf"
    by (rule_tac dropWhile_append1)
  with c(1) have "dropWhile isspace (m @ suf) = c # r @ suf" by simp
  with c(2) show ?thesis by (auto simp: match_delim_def)
qed

lemma re_match_append: "re_match as s \<Longrightarrow> re_match as (s @ suf)"
proof (induction as)
  case Nil
  then show ?case by (simp add: re_match_def)
next
  case (Cons a as)
  show ?case
  proof (cases "Option.bind (match_literal a s) match_delim")
    case None
    with Cons.prems have "re_match as s" by (simp add: re_match_def)
    from Cons.IH [OF this] show ?thesis
      by (auto simp: re_match_def split: option.splits)
  next
    case (Some r)
    then obtain m where "match_literal a s = Some m" "match_delim m = Some r"
      by (auto simp: bind_eq_Some_conv)
    then have "Option.bind (match_literal a (s @ suf)) match_delim = Some (r @ suf)"
      by (simp add: match_literal_append match_delim_append)
    then show ?thesis by (simp add: re_match_def)
  qed
qed

lemma strip_prefix:
  assumes "\<not> isspace c"
  shows "\<exists>suf. c # cs = strip (c # cs) @ suf"
proof -
  from assms have "dropWhile isspace (rev cs @ [c]) = dropWhile isspace (rev cs) @ [c]"
    by (simp add: dropWhile_append3)
  with assms have s: "strip (c # cs) = c # rev (dropWhile isspace (rev cs))"
    by (simp add: strip_def)
  have "rev cs = takeWhile isspace (rev cs) @ dropWhile isspace (rev cs)" by simp
  then have "rev (rev cs) = rev (takeWhile isspace (rev cs) @ dropWhile isspace (rev cs))"
    by simp
  then have "cs = rev (dropWhile isspace (rev cs)) @ rev (takeWhile isspace (rev cs))"
    by (simp del: takeWhile_dropWhile_id)
  with s have "c # cs = strip (c # cs) @ rev (takeWhile isspace (rev cs))" by simp
  then show ?thesis by blast
qed

lemma retained_interviewer:
  assumes "re_match interviewer_labels l"
  shows "retained l = None"
proof -
  from assms obtain r where "match_label interviewer_labels l = Some r"
    by (auto simp: re_match_def)
  from match_label_alt [OF this] obtain b m where b: "b \<in> set interviewer_labels"
    and bm: "match_literal b l = Some m" by blast
  from b have "b \<noteq> []" by (auto simp: interviewer_labels_def)
  then obtain p ps where bp: "b = p # ps" by (cases b) simp_all
  with interviewer_letters [OF b] have p: "islower p" by simp
  from bm bp have "match_literal (p # ps) l = Some m" by simp
  then obtain c cs where l: "l = c # cs" and c: "lower c = lower p"
    by (cases l) (simp_all split: if_splits)
  from letter_not_delim [OF c p] have ns: "\<not> isspace c" by simp
  from strip_prefix [OF ns, of cs] obtain suf where "c # cs = strip (c # cs) @ suf" by blast
  then have "strip (c # cs) @ suf = c # cs" by (rule sym)
  then have suf: "strip l @ suf = l" by (simp only: l)
  have "\<not> re_match interviewee_labels (strip l)"
  proof
    assume "re_match interviewee_labels (strip l)"
    from re_match_append [OF this, of suf] have "re_match interviewee_labels l"
      by (simp only: suf)
    with labels_disjoint assms show False by blast
  qed
  then show ?thesis by (simp add: retained_def)
qed

lemma strip_blank:
  assumes "\<forall>c \<in> set l. isspace c"
  shows "strip l = []"
proof -
  from assms have a: "dropWhile isspace l = []"
    by (simp only: dropWhile_eq_Nil_conv)
  show ?thesis by (simp only: strip_def a dropWhile.simps rev.simps)
qed

lemma retained_blank: "\<forall>c \<in> set l. isspace c \<Longrightarrow> retained l = None"
proof -
  assume "\<forall>c \<in> set l. isspace c"
  then have "strip l = []" by (rule strip_blank)
  then show ?thesis by (simp add: retained_def)
qed

lemma map_filter_all_None: "\<forall>l \<in> set ls. f l = None \<Longrightarrow> List.map_filter f ls = []"
  by (induction ls) (simp_all add: List.map_filter_simps)

lemma match_literal_self:
  "map lower lab = map lower a \<Longrightarrow> match_literal a (lab @ rest) = Some rest"
proof (induction a arbitrary: lab)
  case Nil
  then show ?case by simp
next
  case (Cons p ps)
  then obtain c cs where "lab = c # cs" "lower c = lower p" "map lower cs = map lower ps"
    by (cases lab) auto
  with Cons.IH [of cs] show ?case by simp
qed

lemma match_delim_ws:
  assumes "\<forall>c \<in> set ws. isspace c" and "d = CHR '':'' \<or> d = CHR ''-''"
  shows "match_delim (ws @ d # rest) = Some rest"
proof -
  from assms(2) have "\<not> isspace d" by (auto simp: isspace_def)
  with assms(1) have "dropWhile isspace (ws @ d # rest) = d # rest"
    by (simp add: dropWhile_append2)
  with assms(2) show ?thesis by (auto simp: match_delim_def)
qed

text \<open>
  The matcher for \<open>\s*[:\-]\<close> accepts exactly the strings that start with whitespace
  followed by a delimiter, and returns what follows that delimiter.
\<close>

lemma match_delim_iff:
  "match_delim s = Some r \<longleftrightarrow>
   (\<exists>ws d. s = ws @ d # r \<and> (\<forall>c \<in> set ws. isspace c) \<and> (d = CHR '':'' \<or> d = CHR ''-''))"
proof
  assume "match_delim s = Some r"
  then obtain d where d: "dropWhile isspace s = d # r" "d = CHR '':'' \<or> d = CHR ''-''"
    by (auto simp: match_delim_def split: list.splits if_splits)
  from d(1) have "takeWhile isspace s @ d # r = s"
    by (metis takeWhile_dropWhile_id)
  moreover have "\<forall>c \<in> set (takeWhile isspace s). isspace c"
    by (auto dest: set_takeWhileD)
  ultimately show "\<exists>ws d. s = ws @ d # r \<and> (\<forall>c \<in> set ws. isspace c) \<and>
      (d = CHR '':'' \<or> d = CHR ''-'')"
    using d(2) by metis
next
  assume "\<exists>ws d. s = ws @ d # r \<and> (\<forall>c \<in> set ws. isspace c) \<and>
      (d = CHR '':'' \<or> d = CHR ''-'')"
  then show "match_delim s = Some r" using match_delim_ws by blast
qed

lemma match_label_the_alt:
  assumes "a \<in> set as" and "match_literal a s = Some m" and "match_delim m = Some r"
    and "\<forall>b \<in> set as. \<forall>c \<in> set b. islower c"
  shows "match_label as s = Some r"
  using assms
proof (induction as)
  case Nil
  then show ?case by simp
next
  case (Cons b bs)
  show ?case
  proof (cases "Option.bind (match_literal b s) match_delim")
    case None
    with Cons.prems(2,3) have "a \<noteq> b" by auto
    with Cons.prems have "a \<in> set bs" by simp
    with Cons None show ?thesis by simp
  next
    case (Some r')
    then obtain m' where m': "match_literal b s = Some m'" "match_delim m' = Some r'"
      by (auto simp: bind_eq_Some_conv)
    from Cons.prems(1,4) have la: "\<forall>c \<in> set a. islower c" and lb: "\<forall>c \<in> set b. islower c"
      by auto
    from label_unique [OF Cons.prems(2,3) m' la lb] have "a = b" .
    with m' Cons.prems(2,3) have "r' = r" by simp
    with Some show ?thesis by simp
  qed
qed

lemma strip_pad:
  assumes w0: "\<forall>c \<in> set w0. isspace c" and w1: "\<forall>c \<in> set w1. isspace c"
    and x: "\<not> isspace x" and y: "\<not> isspace y"
  shows "strip (w0 @ (x # mid @ [y]) @ w1) = x # mid @ [y]"
proof -
  from w0 x have "dropWhile isspace (w0 @ (x # mid @ [y]) @ w1) = (x # mid @ [y]) @ w1"
    by (simp add: dropWhile_append2)
  moreover have "dropWhile isspace (rev w1 @ y # rev mid @ [x]) = dropWhile isspace (y # rev mid @ [x])"
    by (rule dropWhile_append2) (use w1 in simp)
  moreover have "dropWhile isspace (y # rev mid @ [x]) = y # rev mid @ [x]"
    using y by simp
  ultimately show ?thesis by (simp add: strip_def)
qed

lemma retained_label_only:
  assumes a: "a \<in> set interviewee_labels" and lab: "map lower lab = a"
    and ws: "\<forall>c \<in> set ws. isspace c" and d: "d = CHR '':'' \<or> d = CHR ''-''"
    and w0: "\<forall>c \<in> set w0. isspace c" and w1: "\<forall>c \<in> set w1. isspace c"
  shows "retained (w0 @ (lab @ ws @ [d]) @ w1) = Some []"
proof -
  from a have "a \<noteq> []" by (auto simp: interviewee_labels_def)
  with lab obtain x lab' where xl: "lab = x # lab'" by (cases lab) auto
  have low: "\<forall>c \<in> set a. islower c" by (rule interviewee_letters [OF a])
  have "lower x \<in> set a" using lab xl by auto
  with low have "islower (lower x)" by blast
  have nx: "\<not> isspace x"
  proof
    assume "isspace x"
    then have "isspace x \<or> x = CHR '':'' \<or> x = CHR ''-''" by simp
    from delim_not_letter [OF this] \<open>islower (lower x)\<close> show False by simp
  qed
  from d have nd: "\<not> isspace d" by (auto simp: isspace_def)
  have core: "lab @ ws @ [d] = x # (lab' @ ws) @ [d]" using xl by simp
  have st: "strip (w0 @ (lab @ ws @ [d]) @ w1) = lab @ ws @ [d]"
    unfolding core by (rule strip_pad [OF w0 w1 nx nd])
  have "map lower lab = map lower a" using lab map_lower_letters [OF low] by simp
  then have ml: "match_literal a (lab @ ws @ [d]) = Some (ws @ [d])"
    by (rule match_literal_self)
  have md: "match_delim (ws @ [d]) = Some []" by (rule match_delim_ws [OF ws d])
  have all: "\<forall>b \<in> set interviewee_labels. \<forall>c \<in> set b. islower c"
    using interviewee_letters by blast
  from match_label_the_alt [OF a ml md all]
  have "match_label interviewee_labels (lab @ ws @ [d]) = Some []" .
  with st xl show ?thesis
    by (simp add: retained_def re_match_def re_sub_def)
qed

lemma map_filter_append:
  "List.map_filter f (xs @ ys) = List.map_filter f xs @ List.map_filter f ys"
  by (simp add: List.map_filter_def)

lemma extract_join:
  assumes "\<forall>l \<in> set ls. newline \<notin> set l"
  shows "extract_interviewee_text (join [newline] ls) = join [newline] (List.map_filter retained ls)"
  using filter_lines_split_join [OF assms]
  by (simp add: extract_interviewee_text_def filter_lines_acc)

section \<open>Properties of \<open>extract_interviewee_text\<close>\<close>

text \<open>
  C1: on the three-line interview of the specification the interviewer line is dropped,
  the labels \<open>Participant:\<close> and \<open>R:\<close> are removed and the two remainders are
  returned in their order, joined by a newline.
\<close>

theorem extract_interview_example:
  "extract_interviewee_text
     (''Interviewer: How are you?'' @ [newline] @ ''Participant: I am fine.'' @ [newline] @
      ''R: Great weather.'') =
   ''I am fine.'' @ [newline] @ ''Great weather.''"
  by code_simp

text \<open>
  C2: a text whose lines are all blank or begin with an interviewer label (before or
  after the surrounding whitespace is removed) gives the empty string; and a non-empty
  line that matches neither pattern can be taken out of the input without changing the
  output.
\<close>

theorem unlabelled_lines_dropped:
  "((\<forall>l \<in> set (split_nl t).
        (\<forall>c \<in> set l. isspace c) \<or> re_match interviewer_labels l \<or>
        re_match interviewer_labels (strip l)) \<longrightarrow>
      extract_interviewee_text t = []) \<and>
   ((\<forall>x \<in> set (pre @ l # post). newline \<notin> set x) \<and> strip l \<noteq> [] \<and>
      \<not> re_match interviewee_labels (strip l) \<and> \<not> re_match interviewer_labels (strip l) \<longrightarrow>
      extract_interviewee_text (join [newline] (pre @ l # post)) =
      extract_interviewee_text (join [newline] (pre @ post)))"
proof (intro conjI impI)
  assume a: "\<forall>l \<in> set (split_nl t).
        (\<forall>c \<in> set l. isspace c) \<or> re_match interviewer_labels l \<or>
        re_match interviewer_labels (strip l)"
  have "\<forall>l \<in> set (split_nl t). retained l = None"
  proof
    fix l
    assume "l \<in> set (split_nl t)"
    with a consider "\<forall>c \<in> set l. isspace c" | "re_match interviewer_labels l"
      | "re_match interviewer_labels (strip l)" by blast
    then show "retained l = None"
    proof cases
      case 1
      then show ?thesis by (rule retained_blank)
    next
      case 2
      then show ?thesis by (rule retained_interviewer)
    next
      case 3
      with labels_disjoint have "\<not> re_match interviewee_labels (strip l)" by blast
      then show ?thesis by (simp add: retained_def)
    qed
  qed
  then have "List.map_filter retained (split_nl t) = []" by (rule map_filter_all_None)
  then show "extract_interviewee_text t = []"
    by (simp add: extract_interviewee_text_def filter_lines_acc)
next
  assume b: "(\<forall>x \<in> set (pre @ l # post). newline \<notin> set x) \<and> strip l \<noteq> [] \<and>
      \<not> re_match interviewee_labels (strip l) \<and> \<not> re_match interviewer_labels (strip l)"
  then have r: "retained l = None" by (simp add: retained_def)
  from b have n1: "\<forall>x \<in> set (pre @ l # post). newline \<notin> set x"
    and n2: "\<forall>x \<in> set (pre @ post). newline \<notin> set x" by auto
  have "List.map_filter retained (pre @ l # post) = List.map_filter retained (pre @ post)"
    using r by (simp add: map_filter_append List.map_filter_simps)
  with extract_join [OF n1] extract_join [OF n2]
  show "extract_interviewee_text (join [newline] (pre @ l # post)) =
      extract_interviewee_text (join [newline] (pre @ post))" by simp
qed

theorem unlabelled_lines_dropped_witness:
  "extract_interviewee_text (''Interviewer: Hi'' @ [newline] @ ''  '' @ [newline] @ ''I - yes'') = [] \<and>
   extract_interviewee_text (join [newline] ([''P: a''] @ ''um, hello'' # [''R: b''])) =
   extract_interviewee_text (join [newline] ([''P: a''] @ [''R: b'']))"
proof -
  let ?t = "''Interviewer: Hi'' @ [newline] @ ''  '' @ [newline] @ ''I - yes''"
  have sp: "split_nl ?t = [''Interviewer: Hi'', ''  '', ''I - yes'']" by code_simp
  have h1: "\<forall>l \<in> set (split_nl ?t).
        (\<forall>c \<in> set l. isspace c) \<or> re_match interviewer_labels l \<or>
        re_match interviewer_labels (strip l)"
  proof -
    have "re_match interviewer_labels ''Interviewer: Hi''" by code_simp
    moreover have "\<forall>c \<in> set ''  ''. isspace c" by (simp add: isspace_def)
    moreover have "re_match interviewer_labels ''I - yes''" by code_simp
    ultimately show ?thesis unfolding sp by simp
  qed
  have h2: "(\<forall>x \<in> set ([''P: a''] @ ''um, hello'' # [''R: b'']). newline \<notin> set x) \<and>
      strip ''um, hello'' \<noteq> [] \<and>
      \<not> re_match interviewee_labels (strip ''um, hello'') \<and>
      \<not> re_match interviewer_labels (strip ''um, hello'')"
  proof -
    have "strip ''um, hello'' \<noteq> []" by code_simp
    moreover have "\<not> re_match interviewee_labels (strip ''um, hello'')" by code_simp
    moreover have "\<not> re_match interviewer_labels (strip ''um, hello'')" by code_simp
    moreover have "\<forall>x \<in> set ([''P: a''] @ ''um, hello'' # [''R: b'']). newline \<notin> set x"
      by (simp add: newline_def)
    ultimately show ?thesis by blast
  qed
  from unlabelled_lines_dropped [of ?t "[''P: a'']" "''um, hello''" "[''R: b'']"] h1 h2
  show ?thesis by blast
qed

text \<open>
  C3, as stated: applying the filter to its own output gives the same text whenever all
  lines of the input are labelled. It fails on a single labelled line: the first pass
  removes the label, and the second pass drops the line that no longer has one.
\<close>

theorem idempotence_counterexample:
  "all_labelled ''Participant: I am fine.'' \<and>
   extract_interviewee_text (extract_interviewee_text ''Participant: I am fine.'') \<noteq>
   extract_interviewee_text ''Participant: I am fine.''"
  by code_simp

text \<open>
  C3, amended: a second application gives the same text exactly when the first one gave
  the empty string. The filter has no other fixed point, since it makes every non-empty
  text shorter.
\<close>

theorem idempotent_iff_empty:
  "(extract_interviewee_text (extract_interviewee_text t) = extract_interviewee_text t) =
   (extract_interviewee_text t = [])"
  by (rule extract_fixed_point)

theorem idempotent_iff_empty_witness:
  "extract_interviewee_text (extract_interviewee_text ''Interviewer: Hi'') =
   extract_interviewee_text ''Interviewer: Hi''"
proof -
  have "extract_interviewee_text ''Interviewer: Hi'' = []" by code_simp
  with idempotent_iff_empty [of "''Interviewer: Hi''"] show ?thesis by blast
qed

text \<open>
  C10: a line made of an interviewee label, optional whitespace and the delimiter, with
  nothing but whitespace around it, is kept as an empty line: the output has an empty
  entry at its place, between what the lines before it and the lines after it give.
\<close>

theorem label_only_line_kept:
  assumes "a \<in> set interviewee_labels" and "map lower lab = a"
    and "\<forall>c \<in> set ws. isspace c" and "d = CHR '':'' \<or> d = CHR ''-''"
    and "\<forall>c \<in> set w0. isspace c" and "\<forall>c \<in> set w1. isspace c"
    and "l = w0 @ (lab @ ws @ [d]) @ w1"
    and "\<forall>x \<in> set (pre @ l # post). newline \<notin> set x"
  shows "extract_interviewee_text (join [newline] (pre @ l # post)) =
         join [newline] (filter_lines pre [] @ [] # filter_lines post [])"
proof -
  have "retained l = Some []"
    unfolding assms(7) by (rule retained_label_only [OF assms(1-6)])
  then have "List.map_filter retained (pre @ l # post) =
      List.map_filter retained pre @ [] # List.map_filter retained post"
    by (simp add: map_filter_append List.map_filter_simps)
  with extract_join [OF assms(8)] show ?thesis by (simp add: filter_lines_acc)
qed

theorem label_only_line_kept_witness:
  "extract_interviewee_text (''P: a'' @ [newline] @ ''P:'' @ [newline] @ ''P: b'') =
   ''a'' @ [newline, newline] @ ''b''"
proof -
  have h1: "''p'' \<in> set interviewee_labels" by (simp add: interviewee_labels_def)
  have h2: "map lower ''P'' = ''p''" by code_simp
  have h3: "\<forall>c \<in> set ([] :: string). isspace c" by simp
  have h4: "CHR '':'' = CHR '':'' \<or> CHR '':'' = CHR ''-''" by simp
  have h7: "''P:'' = [] @ (''P'' @ [] @ [CHR '':'']) @ []" by simp
  have h8: "\<forall>x \<in> set ([''P: a''] @ ''P:'' # [''P: b'']). newline \<notin> set x"
    by (simp add: newline_def)
  have l: "join [newline] ([''P: a''] @ ''P:'' # [''P: b'']) =
      ''P: a'' @ [newline] @ ''P:'' @ [newline] @ ''P: b''" by simp
  have r: "join [newline] (filter_lines [''P: a''] [] @ [] # filter_lines [''P: b''] []) =
      ''a'' @ [newline, newline] @ ''b''" by code_simp
  from label_only_line_kept [OF h1 h2 h3 h4 h3 h3 h7 h8]
  show ?thesis unfolding l r .
qed

section \<open>Tables and paths\<close>

lemma endswith_docx_not_txt: "endswith p ''.docx'' \<Longrightarrow> \<not> endswith p ''.txt''"
  by (cases "rev p") (auto simp: endswith_def)








section \<open>Properties of the loaders\<close>

text \<open>
  C4: a path ending in \<open>.txt\<close> gives the text the file system returns, a path ending
  in \<open>.docx\<close> the paragraphs of the document joined by newlines, whenever the read
  succeeds; any other path gives the unsupported-format error with the path in its
  message, whatever the world is, so without a read.
\<close>

theorem load_transcript_formats:
  "(endswith path ''.txt'' \<and> open_read w path = Inr s \<longrightarrow> load_transcript w path = Inr s) \<and>
   (endswith path ''.docx'' \<and> docx_paragraphs w path = Inr ps \<longrightarrow>
      load_transcript w path = Inr (join [newline] ps)) \<and>
   (\<not> endswith path ''.txt'' \<and> \<not> endswith path ''.docx'' \<longrightarrow>
      (\<forall>w'. load_transcript w' path = Inl (ValueError (''Unsupported file format: '' @ path))))"
  using endswith_docx_not_txt [of path] by (auto simp: load_transcript_def)

theorem load_transcript_formats_witness:
  "load_transcript demo_env ''t/a.txt'' = Inr (''Interviewer: Hi'' @ [newline] @ ''P: fine'') \<and>
   load_transcript demo_env ''t/b.docx'' = Inr ''Participant: fine'' \<and>
   load_transcript demo_env ''a.pdf'' = Inl (ValueError ''Unsupported file format: a.pdf'')"
proof -
  have a: "endswith ''t/a.txt'' ''.txt'' \<and>
      open_read demo_env ''t/a.txt'' = Inr (''Interviewer: Hi'' @ [newline] @ ''P: fine'')"
    by (simp add: endswith_def demo_env_def)
  have b: "endswith ''t/b.docx'' ''.docx'' \<and>
      docx_paragraphs demo_env ''t/b.docx'' = Inr [''Participant: fine'']"
    by (simp add: endswith_def demo_env_def)
  have c: "\<not> endswith ''a.pdf'' ''.txt'' \<and> \<not> endswith ''a.pdf'' ''.docx''"
    by (simp add: endswith_def)
  from load_transcript_formats [of "''t/a.txt''" demo_env "''Interviewer: Hi'' @ [newline] @ ''P: fine''"] a
  have 1: "load_transcript demo_env ''t/a.txt'' = Inr (''Interviewer: Hi'' @ [newline] @ ''P: fine'')"
    by blast
  from load_transcript_formats [of "''t/b.docx''" demo_env _ "[''Participant: fine'']"] b
  have 2: "load_transcript demo_env ''t/b.docx'' = Inr ''Participant: fine''"
    by simp
  from load_transcript_formats [of "''a.pdf''"] c
  have 3: "load_transcript demo_env ''a.pdf'' = Inl (ValueError ''Unsupported file format: a.pdf'')"
    by simp
  from 1 2 3 show ?thesis by blast
qed









section \<open>The loop over the directory entries\<close>

lemma written_paths_append: "written_paths (a @ b) = written_paths a @ written_paths b"
  by (induction a rule: written_paths.induct) simp_all

lemma loaded_paths_append: "loaded_paths (a @ b) = loaded_paths a @ loaded_paths b"
  by (induction a rule: loaded_paths.induct) simp_all

lemma model_calls_append: "model_calls (a @ b) = model_calls a @ model_calls b"
  by (induction a rule: model_calls.induct) simp_all

lemma process_files_skip:
  "\<not> supported f \<Longrightarrow>
   process_files w td od th (pre @ f # post) tr = process_files w td od th (pre @ post) tr"
  by (induction pre arbitrary: tr) (simp_all add: Let_def split: sum.splits option.splits)

lemma process_files_success:
  "process_files w td od th names tr = (tr', None) \<Longrightarrow>
   written_paths tr' = written_paths tr @ map (out_path od) (filter supported names) \<and>
   loaded_paths tr' = loaded_paths tr @ map (path_join td) (filter supported names) \<and>
   length (model_calls tr') = length (model_calls tr) + length (filter supported names)"
proof (induction names arbitrary: tr)
  case Nil
  then show ?case by simp
next
  case (Cons f fs)
  show ?case
  proof (cases "supported f")
    case False
    with Cons show ?thesis by simp
  next
    case True
    let ?tr2 = "tr @ [PrintProcessing f, LoadTranscript (path_join td f)] @
        [ModelCall th (extract_interviewee_text (projr (load_transcript w (path_join td f))))]"
    from Cons.prems True obtain df where
      rec: "process_files w td od th fs
         (?tr2 @ [Wrote (out_path od f) df, PrintSaved (out_path od f)]) = (tr', None)"
      by (auto simp: Let_def split: sum.splits option.splits)
    from Cons.IH [OF rec] True show ?thesis
      by (simp add: written_paths_append loaded_paths_append model_calls_append)
  qed
qed

lemma rfind_absent: "c \<notin> set s \<Longrightarrow> rfind s c = - 1"
  by (simp add: rfind_def)

lemma rfind_last:
  assumes "c \<notin> set t"
  shows "rfind (s @ c # t) c = int (length s)"
proof -
  have "takeWhile (\<lambda>x. x \<noteq> c) (rev t @ c # rev s) = rev t"
    using assms by (auto simp add: takeWhile_tail)
  then show ?thesis by (simp add: rfind_def)
qed

lemma splitext_stem:
  assumes "CHR ''/'' \<notin> set stem" and "list_ex (\<lambda>c. c \<noteq> CHR ''.'') stem"
    and "CHR ''.'' \<notin> set e" and "CHR ''/'' \<notin> set e"
  shows "splitext (stem @ CHR ''.'' # e) = (stem, CHR ''.'' # e)"
proof -
  have d: "rfind (stem @ CHR ''.'' # e) (CHR ''.'') = int (length stem)"
    by (rule rfind_last [OF assms(3)])
  have s: "rfind (stem @ CHR ''.'' # e) (CHR ''/'') = - 1"
    using assms(1,4) by (simp add: rfind_absent)
  show ?thesis using assms(2) by (simp add: splitext_def d s)
qed

lemma out_path_stem:
  assumes "CHR ''/'' \<notin> set stem" and "list_ex (\<lambda>c. c \<noteq> CHR ''.'') stem"
  shows "out_path od (stem @ ''.txt'') = path_join od (''coded_'' @ stem @ ''.csv'')"
    and "out_path od (stem @ ''.docx'') = path_join od (''coded_'' @ stem @ ''.csv'')"
  using splitext_stem [OF assms, of "''txt''"] splitext_stem [OF assms, of "''docx''"]
  by (simp_all add: out_path_def)

text \<open>
  C8, as stated: for every directory one output file is written per entry with a
  supported extension. When the response for \<open>c.txt\<close> is not JSON the run ends with the
  parse error and no file has been written for that entry.
\<close>

theorem one_output_counterexample:
  "listdir demo_env ''bad'' = Inr [''c.txt''] \<and> supported ''c.txt'' \<and>
   written_paths (fst (process_folder demo_env ''bad'' ''themes.xlsx'' ''out'')) = []"
  by code_simp

text \<open>
  Two entries with the same stem, \<open>a.txt\<close> and \<open>a.docx\<close>, are written to the same
  path: the run succeeds, writes twice and leaves one file.
\<close>

lemma same_stem_one_file:
  "listdir demo_env ''dup'' = Inr [''a.txt'', ''a.docx'', ''notes.md''] \<and>
   process_folder demo_env ''dup'' ''themes.xlsx'' ''out'' =
     (fst (process_folder demo_env ''dup'' ''themes.xlsx'' ''out''), None) \<and>
   written_paths (fst (process_folder demo_env ''dup'' ''themes.xlsx'' ''out'')) =
     [''out/coded_a.csv'', ''out/coded_a.csv'']"
  by code_simp

text \<open>
  C8, amended: in a run that ends without an error the files written are, in the order of
  the listing, \<open>coded_<stem>.csv\<close> in the output directory for each entry ending in
  \<open>.txt\<close> or \<open>.docx\<close>, one load and one model call are made per such entry, and when
  these output paths are pairwise different there are as many output files as such
  entries. An entry with another extension can be taken out of the listing without
  changing the run. For a name \<open>stem.txt\<close> or \<open>stem.docx\<close> whose stem has no slash and
  is not made of dots only, the output name is \<open>coded_stem.csv\<close>.
\<close>

theorem one_output_per_transcript:
  assumes "process_folder w td tp od = (tr, None)" and "listdir w td = Inr names"
  shows "written_paths tr = map (out_path od) (filter supported names) \<and>
         loaded_paths tr = map (path_join td) (filter supported names) \<and>
         length (model_calls tr) = length (filter supported names) \<and>
         (distinct (map (out_path od) (filter supported names)) \<longrightarrow>
            card (set (written_paths tr)) = length (filter supported names)) \<and>
         (\<not> supported f \<longrightarrow>
            process_files w td od th (pre @ f # post) tr0 =
            process_files w td od th (pre @ post) tr0) \<and>
         (CHR ''/'' \<notin> set stem \<and> list_ex (\<lambda>c. c \<noteq> CHR ''.'') stem \<longrightarrow>
            out_path od (stem @ ''.txt'') = path_join od (''coded_'' @ stem @ ''.csv'') \<and>
            out_path od (stem @ ''.docx'') = path_join od (''coded_'' @ stem @ ''.csv''))"
proof -
  from assms obtain theme where
    run: "process_files w td od theme names [MakeDirs od, ReadThemes tp, ListDir td] = (tr, None)"
    by (auto simp: process_folder_def split: option.splits sum.splits)
  from process_files_success [OF run]
  have w: "written_paths tr = map (out_path od) (filter supported names)"
    and l: "loaded_paths tr = map (path_join td) (filter supported names)"
    and m: "length (model_calls tr) = length (filter supported names)" by simp_all
  have d: "distinct (map (out_path od) (filter supported names)) \<longrightarrow>
            card (set (written_paths tr)) = length (filter supported names)"
    using w distinct_card [of "map (out_path od) (filter supported names)"] by simp
  show ?thesis
    using w l m d process_files_skip [of f w td od th pre post tr0] out_path_stem [of stem od]
    by simp
qed

theorem one_output_per_transcript_witness:
  "written_paths (fst (process_folder demo_env ''t'' ''themes.xlsx'' ''out'')) =
     [''out/coded_a.csv'', ''out/coded_b.csv''] \<and>
   loaded_paths (fst (process_folder demo_env ''t'' ''themes.xlsx'' ''out'')) =
     [''t/a.txt'', ''t/b.docx''] \<and>
   card (set (written_paths (fst (process_folder demo_env ''t'' ''themes.xlsx'' ''out'')))) = 2"
proof -
  let ?names = "[''a.txt'', ''b.docx'', ''notes.md'']"
  let ?tr = "fst (process_folder demo_env ''t'' ''themes.xlsx'' ''out'')"
  have a: "process_folder demo_env ''t'' ''themes.xlsx'' ''out'' = (?tr, None)" by code_simp
  have b: "listdir demo_env ''t'' = Inr ?names" by (simp add: demo_env_def)
  have f: "filter supported ?names = [''a.txt'', ''b.docx'']" by code_simp
  have o: "map (out_path ''out'') [''a.txt'', ''b.docx''] =
      [''out/coded_a.csv'', ''out/coded_b.csv'']" by code_simp
  have p: "map (path_join ''t'') [''a.txt'', ''b.docx''] = [''t/a.txt'', ''t/b.docx'']"
    by code_simp
  have d: "distinct [''out/coded_a.csv'', ''out/coded_b.csv'']" by simp
  from one_output_per_transcript [OF a b] d
  show ?thesis unfolding f o p by simp
qed

section \<open>The table of a parsed response\<close>

lemma is_JStr_conv: "is_JStr v \<Longrightarrow> \<exists>s. v = JStr s"
  by (cases v) simp_all

lemma coded_quote_field:
  assumes "coded_quote (JObj kvs)" and "k \<in> set quote_fields"
  shows "\<exists>s. map_of kvs k = Some (JStr s)"
proof -
  from assms have "k \<in> fst ` set kvs" by simp
  then obtain v where v: "map_of kvs k = Some v"
    by (cases "map_of kvs k") (auto simp: map_of_eq_None_iff)
  then have "(k, v) \<in> set kvs" by (rule map_of_SomeD)
  then have "v \<in> set (map snd kvs)" by force
  with assms(1) have "is_JStr v" by (auto simp: list_all_iff)
  with is_JStr_conv v show ?thesis by blast
qed

lemma row_cells_fields:
  "\<forall>k \<in> set ks. \<exists>s. map_of kvs k = Some (JStr s) \<Longrightarrow>
   \<exists>cs. row_cells kvs ks = Some cs \<and> length cs = length ks \<and>
     (\<forall>i < length ks. \<forall>s. map_of kvs (ks ! i) = Some (JStr s) \<longrightarrow> cs ! i = CStr s)"
proof (induction ks)
  case Nil
  then show ?case by simp
next
  case (Cons k ks)
  then obtain s where s: "map_of kvs k = Some (JStr s)" by auto
  from Cons obtain cs where cs: "row_cells kvs ks = Some cs" "length cs = length ks"
    "\<forall>i < length ks. \<forall>s. map_of kvs (ks ! i) = Some (JStr s) \<longrightarrow> cs ! i = CStr s"
    by auto
  have "\<forall>i < length (k # ks). \<forall>t. map_of kvs ((k # ks) ! i) = Some (JStr t) \<longrightarrow>
      (CStr s # cs) ! i = CStr t"
  proof (intro allI impI)
    fix i t
    assume "i < length (k # ks)" and "map_of kvs ((k # ks) ! i) = Some (JStr t)"
    with s cs(3) show "(CStr s # cs) ! i = CStr t" by (cases i) auto
  qed
  with s cs(1,2) show ?case by simp
qed

lemma record_row_fields:
  assumes "coded_quote (JObj kvs)" and "set cols = set quote_fields"
  shows "\<exists>cs. record_row cols (JObj kvs) = Some cs \<and> length cs = length cols \<and>
     (\<forall>i < length cols. \<forall>s. map_of kvs (cols ! i) = Some (JStr s) \<longrightarrow> cs ! i = CStr s)"
proof -
  have "\<forall>k \<in> set cols. \<exists>s. map_of kvs k = Some (JStr s)"
    using coded_quote_field [OF assms(1)] assms(2) by blast
  from row_cells_fields [OF this] assms show ?thesis by (simp add: record_row_def)
qed

lemma record_rows_fields:
  "list_all coded_quote items \<Longrightarrow> set cols = set quote_fields \<Longrightarrow>
   \<exists>rs. record_rows cols items = Some rs \<and> length rs = length items \<and>
     (\<forall>n < length items. record_row cols (items ! n) = Some (rs ! n))"
proof (induction items)
  case Nil
  then show ?case by simp
next
  case (Cons i items)
  from Cons.prems(1) have "coded_quote i" by simp
  then obtain kvs where i: "i = JObj kvs" by (cases i) simp_all
  from record_row_fields [OF \<open>coded_quote i\<close> [unfolded i] Cons.prems(2)]
  obtain cs where cs: "record_row cols i = Some cs" unfolding i by blast
  from Cons obtain rs where rs: "record_rows cols items = Some rs" "length rs = length items"
    "\<forall>n < length items. record_row cols (items ! n) = Some (rs ! n)" by auto
  have "\<forall>n < length (i # items). record_row cols ((i # items) ! n) = Some ((cs # rs) ! n)"
  proof (intro allI impI)
    fix n
    assume "n < length (i # items)"
    with cs rs(3) show "record_row cols ((i # items) ! n) = Some ((cs # rs) ! n)"
      by (cases n) auto
  qed
  with cs rs(1,2) show ?case by simp
qed

lemma DataFrame_coded_quotes:
  assumes "list_all coded_quote items"
  shows "\<exists>df. pl_DataFrame w (JArr items) = Inr df \<and> length (rows df) = length items \<and>
     (\<forall>n < length items. \<forall>k \<in> set quote_fields. \<forall>kvs v.
        items ! n = JObj kvs \<and> map_of kvs k = Some (JStr v) \<longrightarrow>
        row_get (iter_rows_named df ! n) k = Inr (CStr v))"
proof (cases items)
  case Nil
  then show ?thesis by (simp add: pl_DataFrame_def)
next
  case (Cons i0 more_items)
  with assms have "coded_quote i0" by simp
  then obtain kvs0 where i0: "i0 = JObj kvs0" by (cases i0) simp_all
  let ?cols = "map fst kvs0"
  from \<open>coded_quote i0\<close> i0 have cols: "set ?cols = set quote_fields" and dist: "distinct ?cols"
    by simp_all
  from record_rows_fields [OF assms cols] obtain rs where
    rs: "record_rows ?cols items = Some rs" "length rs = length items"
    "\<forall>n < length items. record_row ?cols (items ! n) = Some (rs ! n)" by blast
  let ?df = "\<lparr>columns = ?cols, rows = rs\<rparr>"
  have df: "pl_DataFrame w (JArr items) = Inr ?df"
    using rs(1) Cons i0 by (simp add: pl_DataFrame_def)
  have "\<forall>n < length items. \<forall>k \<in> set quote_fields. \<forall>kvs v.
        items ! n = JObj kvs \<and> map_of kvs k = Some (JStr v) \<longrightarrow>
        row_get (iter_rows_named ?df ! n) k = Inr (CStr v)"
  proof (intro allI impI ballI)
    fix n k kvs v
    assume n: "n < length items" and k: "k \<in> set quote_fields"
      and a: "items ! n = JObj kvs \<and> map_of kvs k = Some (JStr v)"
    from assms n a have cq: "coded_quote (JObj kvs)"
      by (metis list_all_length)
    from record_row_fields [OF cq cols] obtain cs where
      cs: "record_row ?cols (JObj kvs) = Some cs" "length cs = length ?cols"
      "\<forall>i < length ?cols. \<forall>s. map_of kvs (?cols ! i) = Some (JStr s) \<longrightarrow> cs ! i = CStr s"
      by blast
    from rs(3) n have "record_row ?cols (items ! n) = Some (rs ! n)" by blast
    with a cs(1) have rn: "rs ! n = cs" by simp
    from k cols obtain j where j: "j < length ?cols" "?cols ! j = k"
      by (metis in_set_conv_nth)
    with cs(3) a have "cs ! j = CStr v" by blast
    moreover have "map_of (zip ?cols cs) (?cols ! j) = Some (cs ! j)"
      using cs(2) dist j(1) by (intro map_of_zip_nth) simp_all
    ultimately have "map_of (zip ?cols cs) k = Some (CStr v)" using j(2) by simp
    with n rs(2) rn show "row_get (iter_rows_named ?df ! n) k = Inr (CStr v)"
      by (simp add: iter_rows_named_def row_get_def)
  qed
  with df rs(2) show ?thesis by auto
qed

text \<open>
  C9: when the stripped response parses to an array of dictionaries with the text fields
  \<open>quote\<close>, \<open>theme\<close> and \<open>explanation\<close>, the coder returns that array, the table
  built from it has one row per element, each field of a row is the field of its element,
  and that table is what is written for the transcript. When the stripped response does
  not parse, the coder returns the parse error, the run ends there and no file is written
  for the transcript.
\<close>

theorem coder_parses_response:
  assumes "chat w theme text = Inr content"
  shows "(json_loads w (strip content) = Inr (JArr items) \<and> list_all coded_quote items \<longrightarrow>
           code_transcript_with_themes w text theme = Inr (JArr items) \<and>
           (\<exists>df. pl_DataFrame w (JArr items) = Inr df \<and> length (rows df) = length items \<and>
              (\<forall>n < length items. \<forall>k \<in> set quote_fields. \<forall>kvs v.
                 items ! n = JObj kvs \<and> map_of kvs k = Some (JStr v) \<longrightarrow>
                 row_get (iter_rows_named df ! n) k = Inr (CStr v)) \<and>
              (supported f \<and> load_transcript w (path_join td f) = Inr raw \<and>
               extract_interviewee_text raw = text \<and> write_csv w (out_path od f) df = None \<longrightarrow>
                 process_files w td od theme (f # fs) tr =
                 process_files w td od theme fs
                   (tr @ [PrintProcessing f, LoadTranscript (path_join td f), ModelCall theme text,
                          Wrote (out_path od f) df, PrintSaved (out_path od f)])))) \<and>
         (json_loads w (strip content) = Inl e \<longrightarrow>
           code_transcript_with_themes w text theme = Inl e \<and>
           (supported f \<and> load_transcript w (path_join td f) = Inr raw \<and>
            extract_interviewee_text raw = text \<longrightarrow>
              process_files w td od theme (f # fs) tr =
                (tr @ [PrintProcessing f, LoadTranscript (path_join td f), ModelCall theme text],
                 Some e) \<and>
              written_paths (fst (process_files w td od theme (f # fs) tr)) = written_paths tr))"
proof (intro conjI impI)
  assume a: "json_loads w (strip content) = Inr (JArr items) \<and> list_all coded_quote items"
  with assms show c: "code_transcript_with_themes w text theme = Inr (JArr items)"
    by (simp add: code_transcript_with_themes_def)
  from a DataFrame_coded_quotes [of items w] obtain df where
    df: "pl_DataFrame w (JArr items) = Inr df" "length (rows df) = length items"
    "\<forall>n < length items. \<forall>k \<in> set quote_fields. \<forall>kvs v.
        items ! n = JObj kvs \<and> map_of kvs k = Some (JStr v) \<longrightarrow>
        row_get (iter_rows_named df ! n) k = Inr (CStr v)" by blast
  have "supported f \<and> load_transcript w (path_join td f) = Inr raw \<and>
        extract_interviewee_text raw = text \<and> write_csv w (out_path od f) df = None \<longrightarrow>
          process_files w td od theme (f # fs) tr =
          process_files w td od theme fs
            (tr @ [PrintProcessing f, LoadTranscript (path_join td f), ModelCall theme text,
                   Wrote (out_path od f) df, PrintSaved (out_path od f)])"
    using c df(1) by (simp add: Let_def)
  with df show "\<exists>df. pl_DataFrame w (JArr items) = Inr df \<and> length (rows df) = length items \<and>
              (\<forall>n < length items. \<forall>k \<in> set quote_fields. \<forall>kvs v.
                 items ! n = JObj kvs \<and> map_of kvs k = Some (JStr v) \<longrightarrow>
                 row_get (iter_rows_named df ! n) k = Inr (CStr v)) \<and>
              (supported f \<and> load_transcript w (path_join td f) = Inr raw \<and>
               extract_interviewee_text raw = text \<and> write_csv w (out_path od f) df = None \<longrightarrow>
                 process_files w td od theme (f # fs) tr =
                 process_files w td od theme fs
                   (tr @ [PrintProcessing f, LoadTranscript (path_join td f), ModelCall theme text,
                          Wrote (out_path od f) df, PrintSaved (out_path od f)]))"
    by blast
next
  assume a: "json_loads w (strip content) = Inl e"
  with assms show c: "code_transcript_with_themes w text theme = Inl e"
    by (simp add: code_transcript_with_themes_def)
  assume b: "supported f \<and> load_transcript w (path_join td f) = Inr raw \<and>
            extract_interviewee_text raw = text"
  with c show p: "process_files w td od theme (f # fs) tr =
                (tr @ [PrintProcessing f, LoadTranscript (path_join td f), ModelCall theme text],
                 Some e)"
    by (simp add: Let_def)
  show "written_paths (fst (process_files w td od theme (f # fs) tr)) = written_paths tr"
    unfolding p by (simp add: written_paths_append)
qed

theorem coder_parses_response_witness:
  "code_transcript_with_themes demo_env ''fine'' ''x'' = Inr (JArr demo_items) \<and>
   code_transcript_with_themes demo_env ''hello'' ''x'' = Inl JSONDecodeError \<and>
   process_files demo_env ''bad'' ''out'' ''x'' [''c.txt''] [] =
     ([PrintProcessing ''c.txt'', LoadTranscript ''bad/c.txt'', ModelCall ''x'' ''hello''],
      Some JSONDecodeError)"
proof -
  have c1: "chat demo_env ''x'' ''fine'' = Inr ('' '' @ demo_response @ [newline])"
    by (simp add: demo_env_def)
  have j1: "json_loads demo_env (strip ('' '' @ demo_response @ [newline])) = Inr (JArr demo_items)"
    by code_simp
  have q: "list_all coded_quote demo_items" by code_simp
  from coder_parses_response [OF c1, where items = demo_items] j1 q
  have 1: "code_transcript_with_themes demo_env ''fine'' ''x'' = Inr (JArr demo_items)"
    by blast
  have c2: "chat demo_env ''x'' ''hello'' = Inr ''Here are the quotes you asked for.''"
    by (simp add: demo_env_def)
  have j2: "json_loads demo_env (strip ''Here are the quotes you asked for.'') = Inl JSONDecodeError"
    by code_simp
  have p: "path_join ''bad'' ''c.txt'' = ''bad/c.txt''" by code_simp
  have s: "supported ''c.txt'' \<and> load_transcript demo_env (path_join ''bad'' ''c.txt'') = Inr ''P: hello'' \<and>
      extract_interviewee_text ''P: hello'' = ''hello''"
    by code_simp
  from coder_parses_response [OF c2, where e = JSONDecodeError and f = "''c.txt''"
      and td = "''bad''" and raw = "''P: hello''" and od = "''out''" and fs = "[]" and tr = "[]"]
    j2 s
  have 2: "code_transcript_with_themes demo_env ''hello'' ''x'' = Inl JSONDecodeError"
    and 3: "process_files demo_env ''bad'' ''out'' ''x'' [''c.txt''] [] =
      ([] @ [PrintProcessing ''c.txt'', LoadTranscript (path_join ''bad'' ''c.txt''),
             ModelCall ''x'' ''hello''], Some JSONDecodeError)"
    by blast+
  from 1 2 3 show ?thesis unfolding p by simp
qed

end
